theory Spec2Isabelle
  imports Complex_Main "HOL-Library.Word"
begin

unbundle bit_operations_syntax

section \<open>Python values and exceptions\<close>

text \<open>
  The module \<^verbatim>\<open>bloomfilter.py\<close> keeps a Bloom filter in a Redis server: the parameters
  of a filter live in the hash \<^verbatim>\<open><name>:metadata\<close>, its bits in the string
  \<^verbatim>\<open><name>:bits\<close>. Python integers are unbounded and are modelled by \<open>int\<close>; a
  \<^verbatim>\<open>bytes\<close> or \<^verbatim>\<open>str\<close> object is a \<open>string\<close> (for \<^verbatim>\<open>str\<close>, its UTF-8 bytes)
  under a constructor that keeps the two Python types apart, since \<^verbatim>\<open>b'size' != 'size'\<close>.
\<close>

datatype pyval = PyBytes string | PyStr string

datatype value_error =
    NotFound string           \<comment> \<open>\<^verbatim>\<open>ValueError("Bloom filter '<name>' not found. ...")\<close>\<close>
  | InvalidLiteral string     \<comment> \<open>\<^verbatim>\<open>int()\<close> on text that is no decimal literal\<close>
  | MathDomainError           \<comment> \<open>\<^verbatim>\<open>math.log\<close> outside its domain\<close>

datatype redis_error = WrongType | BitOffsetOutOfRange

datatype py_error =
    ValueError value_error
  | KeyError pyval
  | ZeroDivisionError
  | ResponseError redis_error

subsection \<open>\<^verbatim>\<open>int(text)\<close> and \<^verbatim>\<open>str(int)\<close>\<close>

definition is_space :: "char \<Rightarrow> bool" where
  "is_space c \<longleftrightarrow> (of_char c :: nat) \<in> {9, 10, 11, 12, 13, 32}"

definition is_digit :: "char \<Rightarrow> bool" where
  "is_digit c \<longleftrightarrow> 48 \<le> (of_char c :: nat) \<and> (of_char c :: nat) \<le> 57"

definition digit_val :: "char \<Rightarrow> int" where
  "digit_val c = int (of_char c) - 48"

definition strip :: "string \<Rightarrow> string" where
  "strip s = rev (dropWhile is_space (rev (dropWhile is_space s)))"

text \<open>Decimal digits; a single underscore is allowed between two digits.\<close>

fun parse_digits :: "int \<Rightarrow> string \<Rightarrow> int option" where
  "parse_digits acc [] = Some acc"
| "parse_digits acc (c # cs) =
     (if is_digit c then
        (case cs of
           u # d # ds \<Rightarrow>
             if u = CHR ''_'' \<and> is_digit d
             then parse_digits (acc * 10 + digit_val c) (d # ds)
             else parse_digits (acc * 10 + digit_val c) cs
         | _ \<Rightarrow> parse_digits (acc * 10 + digit_val c) cs)
      else None)"

declare parse_digits.simps(2) [simp del]

definition parse_unsigned :: "string \<Rightarrow> int option" where
  "parse_unsigned s = (if s = [] then None else parse_digits 0 s)"

definition py_int :: "string \<Rightarrow> py_error + int" where
  "py_int s =
     (let r = (case strip s of
                 [] \<Rightarrow> None
               | c # cs \<Rightarrow>
                   if c = CHR ''-'' then map_option uminus (parse_unsigned cs)
                   else if c = CHR ''+'' then parse_unsigned cs
                   else parse_unsigned (c # cs))
      in case r of None \<Rightarrow> Inl (ValueError (InvalidLiteral s)) | Some n \<Rightarrow> Inr n)"




subsection \<open>Arithmetic that can raise\<close>

definition py_mod :: "int \<Rightarrow> int \<Rightarrow> py_error + int" where
  \<comment> \<open>\<^verbatim>\<open>a % b\<close> on integers: the result has the sign of \<open>b\<close>, as HOL's \<open>mod\<close>.\<close>
  "py_mod a b = (if b = 0 then Inl ZeroDivisionError else Inr (a mod b))"

definition py_range :: "int \<Rightarrow> int list" where
  \<comment> \<open>\<^verbatim>\<open>range(k)\<close>: empty when \<open>k \<le> 0\<close>.\<close>
  "py_range k = map int [0..<nat k]"

section \<open>The Redis server, seen through the client\<close>

text \<open>
  The server is one keyspace; a key holds a string (a byte buffer) or a hash (fields in
  insertion order). A command on a key of the other kind is refused with
  \<^verbatim>\<open>WRONGTYPE\<close>. The client records every command it sends in \<open>calls\<close>, and wraps
  what \<^verbatim>\<open>HGETALL\<close> returns as \<^verbatim>\<open>str\<close> when it was built with
  \<^verbatim>\<open>decode_responses=True\<close>, as \<^verbatim>\<open>bytes\<close> otherwise. The size limits of a server
  (512 MB for a string) and connection failures are outside the model.
\<close>

datatype redis_obj = RString "8 word list" | RHash "(string \<times> string) list"

datatype command =
    HSET string "(string \<times> string) list"
  | SET string "8 word list"
  | HGETALL string
  | SETBIT string int int
  | GETBIT string int

record redis_client =
  keyspace :: "string \<Rightarrow> redis_obj option"
  decode_responses :: bool
  calls :: "command list"




definition wrap :: "redis_client \<Rightarrow> string \<Rightarrow> pyval" where
  "wrap c s = (if decode_responses c then PyStr s else PyBytes s)"

definition hgetall :: "redis_client \<Rightarrow> string \<Rightarrow> py_error + ((pyval \<times> pyval) list \<times> redis_client)" where
  "hgetall c name =
     (case keyspace c name of
        Some (RString _) \<Rightarrow> Inl (ResponseError WrongType)
      | Some (RHash h) \<Rightarrow>
          Inr (map (\<lambda>(f, v). (wrap c f, wrap c v)) h, c\<lparr>calls := calls c @ [HGETALL name]\<rparr>)
      | None \<Rightarrow> Inr ([], c\<lparr>calls := calls c @ [HGETALL name]\<rparr>))"

text \<open>
  Bit \<open>off\<close> of a buffer is bit \<open>7 - off mod 8\<close> of byte \<open>off div 8\<close> (the most
  significant bit first). \<^verbatim>\<open>SETBIT\<close> grows the buffer with zero bytes up to the byte it
  writes; \<^verbatim>\<open>GETBIT\<close> reads 0 beyond the end and on a missing key.
\<close>

definition test_bit :: "8 word list \<Rightarrow> nat \<Rightarrow> bool" where
  "test_bit bs off \<longleftrightarrow> off div 8 < length bs \<and> bit (bs ! (off div 8)) (7 - off mod 8)"

definition pad_to :: "8 word list \<Rightarrow> nat \<Rightarrow> 8 word list" where
  "pad_to bs n = bs @ replicate (n - length bs) 0"

definition write_bit :: "8 word list \<Rightarrow> nat \<Rightarrow> bool \<Rightarrow> 8 word list" where
  "write_bit bs off v =
     (let bs' = pad_to bs (off div 8 + 1); b = bs' ! (off div 8)
      in bs'[off div 8 := (if v then set_bit (7 - off mod 8) b else unset_bit (7 - off mod 8) b)])"

definition setbit :: "redis_client \<Rightarrow> string \<Rightarrow> int \<Rightarrow> int \<Rightarrow> py_error + redis_client" where
  "setbit c name offset v =
     (if offset < 0 then Inl (ResponseError BitOffsetOutOfRange)
      else (case keyspace c name of
        Some (RHash _) \<Rightarrow> Inl (ResponseError WrongType)
      | Some (RString bs) \<Rightarrow>
          Inr (c\<lparr>keyspace := (keyspace c)(name \<mapsto> RString (write_bit bs (nat offset) (v \<noteq> 0))),
                 calls := calls c @ [SETBIT name offset v]\<rparr>)
      | None \<Rightarrow>
          Inr (c\<lparr>keyspace := (keyspace c)(name \<mapsto> RString (write_bit [] (nat offset) (v \<noteq> 0))),
                 calls := calls c @ [SETBIT name offset v]\<rparr>)))"

definition getbit :: "redis_client \<Rightarrow> string \<Rightarrow> int \<Rightarrow> py_error + (int \<times> redis_client)" where
  "getbit c name offset =
     (if offset < 0 then Inl (ResponseError BitOffsetOutOfRange)
      else (case keyspace c name of
        Some (RHash _) \<Rightarrow> Inl (ResponseError WrongType)
      | Some (RString bs) \<Rightarrow>
          Inr (if test_bit bs (nat offset) then 1 else 0, c\<lparr>calls := calls c @ [GETBIT name offset]\<rparr>)
      | None \<Rightarrow> Inr (0, c\<lparr>calls := calls c @ [GETBIT name offset]\<rparr>)))"

section \<open>The functions of \<^verbatim>\<open>bloomfilter.py\<close>\<close>

text \<open>
  What the module takes from other libraries is a parameter: \<open>mmh3_hash\<close> is
  \<^verbatim>\<open>mmh3.hash(key, seed)\<close>, a 32-bit value read as a signed integer; \<open>py_str\<close> is
  \<^verbatim>\<open>str(item)\<close>; \<open>repr_float\<close> is the text the client sends for a float.
\<close>

record 'a py_env =
  mmh3_hash :: "string \<Rightarrow> int \<Rightarrow> 32 word"
  py_str :: "'a \<Rightarrow> string"
  repr_float :: "real \<Rightarrow> string"

definition metadata_int :: "(pyval \<times> pyval) list \<Rightarrow> string \<Rightarrow> py_error + int" where
  \<comment> \<open>\<^verbatim>\<open>int(metadata[b'f']) if isinstance(metadata[b'f'], bytes) else int(metadata['f'])\<close>\<close>
  "metadata_int metadata f =
     (case map_of metadata (PyBytes f) of
        None \<Rightarrow> Inl (KeyError (PyBytes f))
      | Some (PyBytes b) \<Rightarrow> py_int b
      | Some (PyStr _) \<Rightarrow>
          (case map_of metadata (PyStr f) of
             None \<Rightarrow> Inl (KeyError (PyStr f))
           | Some (PyBytes b) \<Rightarrow> py_int b
           | Some (PyStr s) \<Rightarrow> py_int s))"

definition bit_offset :: "'a py_env \<Rightarrow> string \<Rightarrow> int \<Rightarrow> int \<Rightarrow> py_error + int" where
  \<comment> \<open>\<^verbatim>\<open>mmh3.hash(item_str, i) % m\<close>\<close>
  "bit_offset env item_str i m = py_mod (sint (mmh3_hash env item_str i)) m"

fun add_loop :: "'a py_env \<Rightarrow> redis_client \<Rightarrow> string \<Rightarrow> string \<Rightarrow> int \<Rightarrow> int list
    \<Rightarrow> py_error + redis_client" where
  "add_loop env c filter_name item_str m [] = Inr c"
| "add_loop env c filter_name item_str m (i # rest) =
     (case bit_offset env item_str i m of
        Inl e \<Rightarrow> Inl e
      | Inr hash_val \<Rightarrow>
          (case setbit c (filter_name @ '':bits'') hash_val 1 of
             Inl e \<Rightarrow> Inl e
           | Inr c' \<Rightarrow> add_loop env c' filter_name item_str m rest))"

definition add_to_bloom_filter :: "'a py_env \<Rightarrow> redis_client \<Rightarrow> string \<Rightarrow> 'a
    \<Rightarrow> py_error + (bool \<times> redis_client)" where
  "add_to_bloom_filter env redis_client filter_name item =
     (case hgetall redis_client (filter_name @ '':metadata'') of
        Inl e \<Rightarrow> Inl e
      | Inr (metadata, c1) \<Rightarrow>
          if metadata = [] then Inl (ValueError (NotFound filter_name))
          else (case metadata_int metadata ''size'' of
            Inl e \<Rightarrow> Inl e
          | Inr m \<Rightarrow>
              (case metadata_int metadata ''hash_functions'' of
                 Inl e \<Rightarrow> Inl e
               | Inr k \<Rightarrow>
                   (case add_loop env c1 filter_name (py_str env item) m (py_range k) of
                      Inl e \<Rightarrow> Inl e
                    | Inr c2 \<Rightarrow> Inr (True, c2)))))"

fun check_loop :: "'a py_env \<Rightarrow> redis_client \<Rightarrow> string \<Rightarrow> string \<Rightarrow> int \<Rightarrow> int list
    \<Rightarrow> py_error + (bool \<times> redis_client)" where
  "check_loop env c filter_name item_str m [] = Inr (True, c)"
| "check_loop env c filter_name item_str m (i # rest) =
     (case bit_offset env item_str i m of
        Inl e \<Rightarrow> Inl e
      | Inr hash_val \<Rightarrow>
          (case getbit c (filter_name @ '':bits'') hash_val of
             Inl e \<Rightarrow> Inl e
           | Inr (bit_set, c') \<Rightarrow>
               if bit_set = 0 then Inr (False, c')
               else check_loop env c' filter_name item_str m rest))"

definition check_bloom_filter :: "'a py_env \<Rightarrow> redis_client \<Rightarrow> string \<Rightarrow> 'a
    \<Rightarrow> py_error + (bool \<times> redis_client)" where
  "check_bloom_filter env redis_client filter_name item =
     (case hgetall redis_client (filter_name @ '':metadata'') of
        Inl e \<Rightarrow> Inl e
      | Inr (metadata, c1) \<Rightarrow>
          if metadata = [] then Inl (ValueError (NotFound filter_name))
          else (case metadata_int metadata ''size'' of
            Inl e \<Rightarrow> Inl e
          | Inr m \<Rightarrow>
              (case metadata_int metadata ''hash_functions'' of
                 Inl e \<Rightarrow> Inl e
               | Inr k \<Rightarrow> check_loop env c1 filter_name (py_str env item) m (py_range k))))"

subsection \<open>Initialisation\<close>







section \<open>Observations used to state the properties\<close>

text \<open>
  \<open>stored_bit c name offset\<close>: the buffer under \<open>name\<close> has bit \<open>offset\<close> set.
  \<open>holds_hash c name\<close>: the key holds a hash. \<open>add_all\<close> is a caller that inserts a
  list of items, each into the filter named with it, and stops at the first exception.
\<close>

definition stored_bit :: "redis_client \<Rightarrow> string \<Rightarrow> int \<Rightarrow> bool" where
  "stored_bit c name offset \<longleftrightarrow>
     0 \<le> offset \<and> (case keyspace c name of Some (RString bs) \<Rightarrow> test_bit bs (nat offset) | _ \<Rightarrow> False)"

definition holds_hash :: "redis_client \<Rightarrow> string \<Rightarrow> bool" where
  "holds_hash c name \<longleftrightarrow> (case keyspace c name of Some (RHash _) \<Rightarrow> True | _ \<Rightarrow> False)"

fun add_all :: "'a py_env \<Rightarrow> redis_client \<Rightarrow> (string \<times> 'a) list \<Rightarrow> py_error + redis_client" where
  "add_all env c [] = Inr c"
| "add_all env c ((filter_name, item) # rest) =
     (case add_to_bloom_filter env c filter_name item of
        Inl e \<Rightarrow> Inl e
      | Inr (_, c') \<Rightarrow> add_all env c' rest)"


text \<open>
  \<open>probe_offsets\<close> lists the offsets \<^verbatim>\<open>mmh3.hash(str(item), i) % m\<close> for
  \<^verbatim>\<open>i\<close> in \<^verbatim>\<open>range(k)\<close>, in that order; \<open>valid_bit_command m\<close> holds of a
  \<^verbatim>\<open>SETBIT\<close> or \<^verbatim>\<open>GETBIT\<close> whose offset is inside an \<open>m\<close>-bit buffer.
\<close>

definition probe_offsets :: "'a py_env \<Rightarrow> 'a \<Rightarrow> int \<Rightarrow> int \<Rightarrow> int list" where
  "probe_offsets env item m k =
     map (\<lambda>i. sint (mmh3_hash env (py_str env item) i) mod m) (py_range k)"

fun valid_bit_command :: "int \<Rightarrow> command \<Rightarrow> bool" where
  "valid_bit_command m (SETBIT _ offset _) \<longleftrightarrow> 0 \<le> offset \<and> offset < m"
| "valid_bit_command m (GETBIT _ offset) \<longleftrightarrow> 0 \<le> offset \<and> offset < m"
| "valid_bit_command m _ \<longleftrightarrow> True"

subsection \<open>A concrete filter\<close>

text \<open>
  A hash function with negative values, a client that returns \<^verbatim>\<open>bytes\<close>, and a store
  that holds a filter \<^verbatim>\<open>f\<close> of 100 bits and 3 hash functions, with bits 88 and 94 set.
\<close>

definition example_env :: "string py_env" where
  "example_env =
     \<lparr>mmh3_hash = (\<lambda>s i. word_of_int (- 5 - 3 * i - int (length s))),
      py_str = (\<lambda>s. s),
      repr_float = (\<lambda>_. ''0.5'')\<rparr>"

definition example_client :: redis_client where
  "example_client =
     \<lparr>keyspace =
        [''f:metadata'' \<mapsto> RHash [(''size'', ''100''), (''hash_functions'', ''3'')],
         ''f:bits'' \<mapsto> RString [0, 0, 0, 0, 0, 0, 0, 0, 0, 0, 0, 130, 0]],
      decode_responses = False,
      calls = []\<rparr>"

section \<open>Properties of the store\<close>

subsection \<open>Keys and bits\<close>

lemma metadata_key_neq_bits_key: "n @ '':metadata'' \<noteq> n' @ '':bits''"
proof
  assume "n @ '':metadata'' = n' @ '':bits''"
  then have "last (n @ '':metadata'') = last (n' @ '':bits'')" by simp
  then show False by simp
qed

lemma bit_index_less: "7 - off mod 8 < (8::nat)"
  by arith

lemma test_bit_write_bit_same: "test_bit (write_bit bs off True) off"
  by (simp add: test_bit_def write_bit_def pad_to_def Let_def bit_set_bit_iff nth_append bit_index_less)

lemma test_bit_write_bit_mono: "test_bit bs j \<Longrightarrow> test_bit (write_bit bs off True) j"
  by (auto simp add: test_bit_def write_bit_def pad_to_def Let_def bit_set_bit_iff nth_append nth_list_update)

lemma write_bit_idem: "test_bit bs off \<Longrightarrow> write_bit bs off True = bs"
  by (simp add: test_bit_def write_bit_def pad_to_def Let_def set_bit_eq_idem_iff list_update_same_conv eq_commute [of "bs ! i" for i])

lemma test_bit_Nil: "\<not> test_bit [] off"
  by (simp add: test_bit_def)

subsection \<open>Single commands\<close>

lemma setbit_decode: "setbit c key off v = Inr c' \<Longrightarrow> decode_responses c' = decode_responses c"
  by (auto simp: setbit_def split: if_splits option.splits redis_obj.splits)

lemma setbit_other_key:
  "setbit c key off v = Inr c' \<Longrightarrow> key2 \<noteq> key \<Longrightarrow> keyspace c' key2 = keyspace c key2"
  by (auto simp: setbit_def split: if_splits option.splits redis_obj.splits)

lemma setbit_stored_same: "setbit c key off 1 = Inr c' \<Longrightarrow> stored_bit c' key off"
  by (auto simp: setbit_def stored_bit_def test_bit_write_bit_same
      split: if_splits option.splits redis_obj.splits)

lemma setbit_stored_mono:
  "setbit c key off 1 = Inr c' \<Longrightarrow> stored_bit c key2 off2 \<Longrightarrow> stored_bit c' key2 off2"
  by (auto simp: setbit_def stored_bit_def test_bit_write_bit_mono
      split: if_splits option.splits redis_obj.splits)

lemma setbit_stored_idem:
  "stored_bit c key off \<Longrightarrow> \<exists>c'. setbit c key off 1 = Inr c' \<and> keyspace c' = keyspace c"
  by (auto simp: setbit_def stored_bit_def write_bit_idem fun_upd_idem
      split: if_splits option.splits redis_obj.splits)

lemma getbit_stored:
  "stored_bit c key off \<Longrightarrow> getbit c key off = Inr (1, c\<lparr>calls := calls c @ [GETBIT key off]\<rparr>)"
  by (auto simp: getbit_def stored_bit_def split: if_splits option.splits redis_obj.splits)


lemma stored_bit_calls [simp]: "stored_bit (c\<lparr>calls := l\<rparr>) key off = stored_bit c key off"
  by (simp add: stored_bit_def)

lemma holds_hash_calls [simp]: "holds_hash (c\<lparr>calls := l\<rparr>) key = holds_hash c key"
  by (simp add: holds_hash_def)

lemma hgetall_Inr:
  "hgetall c key = Inr (md, c1) \<Longrightarrow> c1 = c\<lparr>calls := calls c @ [HGETALL key]\<rparr>"
  by (auto simp: hgetall_def split: option.splits redis_obj.splits)

lemma hgetall_cong:
  "hgetall c key = Inr (md, c1) \<Longrightarrow> keyspace c' key = keyspace c key \<Longrightarrow>
   decode_responses c' = decode_responses c \<Longrightarrow>
   hgetall c' key = Inr (md, c'\<lparr>calls := calls c' @ [HGETALL key]\<rparr>)"
  by (auto simp: hgetall_def wrap_def split: option.splits redis_obj.splits)

subsection \<open>The two loops\<close>

lemma add_loop_frame:
  "add_loop env c n s m is = Inr c' \<Longrightarrow>
   decode_responses c' = decode_responses c \<and>
   (\<forall>key2. key2 \<noteq> n @ '':bits'' \<longrightarrow> keyspace c' key2 = keyspace c key2) \<and>
   (\<forall>key off. stored_bit c key off \<longrightarrow> stored_bit c' key off)"
proof (induction "is" arbitrary: c)
  case Nil
  then show ?case by simp
next
  case (Cons i rest)
  from Cons.prems obtain v c1 where
    v: "bit_offset env s i m = Inr v" and
    sb: "setbit c (n @ '':bits'') v 1 = Inr c1" and
    rest: "add_loop env c1 n s m rest = Inr c'"
    by (auto split: sum.splits)
  from Cons.IH [OF rest] setbit_decode [OF sb] setbit_other_key [OF sb] setbit_stored_mono [OF sb]
  show ?case by auto
qed

lemma add_loop_sets:
  "add_loop env c n s m is = Inr c' \<Longrightarrow> i \<in> set is \<Longrightarrow>
   \<exists>v. bit_offset env s i m = Inr v \<and> stored_bit c' (n @ '':bits'') v"
proof (induction "is" arbitrary: c)
  case Nil
  then show ?case by simp
next
  case (Cons j rest)
  from Cons.prems(1) obtain v c1 where
    v: "bit_offset env s j m = Inr v" and
    sb: "setbit c (n @ '':bits'') v 1 = Inr c1" and
    rest: "add_loop env c1 n s m rest = Inr c'"
    by (auto split: sum.splits)
  show ?case
  proof (cases "i = j")
    case True
    from setbit_stored_same [OF sb] add_loop_frame [OF rest]
    have "stored_bit c' (n @ '':bits'') v" by blast
    with v True show ?thesis by blast
  next
    case False
    with Cons.prems(2) have "i \<in> set rest" by simp
    from Cons.IH [OF rest this] show ?thesis .
  qed
qed

lemma add_loop_idem:
  "\<forall>i\<in>set is. \<exists>v. bit_offset env s i m = Inr v \<and> stored_bit c (n @ '':bits'') v \<Longrightarrow>
   \<exists>c'. add_loop env c n s m is = Inr c' \<and> keyspace c' = keyspace c \<and>
        decode_responses c' = decode_responses c"
proof (induction "is" arbitrary: c)
  case Nil
  then show ?case by simp
next
  case (Cons j rest)
  from Cons.prems obtain v where
    v: "bit_offset env s j m = Inr v" and st: "stored_bit c (n @ '':bits'') v"
    by auto
  from setbit_stored_idem [OF st] obtain c1 where
    sb: "setbit c (n @ '':bits'') v 1 = Inr c1" and ks: "keyspace c1 = keyspace c"
    by blast
  have "\<forall>i\<in>set rest. \<exists>v. bit_offset env s i m = Inr v \<and> stored_bit c1 (n @ '':bits'') v"
    using Cons.prems ks by (simp add: stored_bit_def)
  from Cons.IH [OF this] obtain c' where
    "add_loop env c1 n s m rest = Inr c'" "keyspace c' = keyspace c1"
    "decode_responses c' = decode_responses c1"
    by blast
  with v sb ks setbit_decode [OF sb] show ?case by simp
qed

lemma check_loop_all_stored:
  "\<forall>i\<in>set is. \<exists>v. bit_offset env s i m = Inr v \<and> stored_bit c (n @ '':bits'') v \<Longrightarrow>
   \<exists>c'. check_loop env c n s m is = Inr (True, c')"
proof (induction "is" arbitrary: c)
  case Nil
  then show ?case by simp
next
  case (Cons j rest)
  from Cons.prems obtain v where
    v: "bit_offset env s j m = Inr v" and st: "stored_bit c (n @ '':bits'') v"
    by auto
  let ?c1 = "c\<lparr>calls := calls c @ [GETBIT (n @ '':bits'') v]\<rparr>"
  have "\<forall>i\<in>set rest. \<exists>v. bit_offset env s i m = Inr v \<and> stored_bit ?c1 (n @ '':bits'') v"
    using Cons.prems by simp
  from Cons.IH [OF this] obtain c' where "check_loop env ?c1 n s m rest = Inr (True, c')"
    by blast
  with v getbit_stored [OF st] show ?case by simp
qed

subsection \<open>Insertion leaves the metadata alone and only sets bits\<close>

lemma add_to_bloom_filter_InrE:
  assumes "add_to_bloom_filter env c n x = Inr (r, c')"
  obtains md m k where
    "hgetall c (n @ '':metadata'') = Inr (md, c\<lparr>calls := calls c @ [HGETALL (n @ '':metadata'')]\<rparr>)"
    "md \<noteq> []" "metadata_int md ''size'' = Inr m" "metadata_int md ''hash_functions'' = Inr k"
    "add_loop env (c\<lparr>calls := calls c @ [HGETALL (n @ '':metadata'')]\<rparr>) n (py_str env x) m (py_range k) = Inr c'"
    "r = True"
proof -
  from assms obtain md c1 where h: "hgetall c (n @ '':metadata'') = Inr (md, c1)"
    by (auto simp: add_to_bloom_filter_def split: sum.splits)
  from hgetall_Inr [OF h] have c1: "c1 = c\<lparr>calls := calls c @ [HGETALL (n @ '':metadata'')]\<rparr>" .
  from assms h show ?thesis
    by (auto simp: add_to_bloom_filter_def c1 intro: that split: sum.splits if_splits)
qed

lemma add_to_bloom_filter_frame:
  assumes "add_to_bloom_filter env c n x = Inr (r, c')"
  shows "decode_responses c' = decode_responses c \<and>
    keyspace c' (n2 @ '':metadata'') = keyspace c (n2 @ '':metadata'') \<and>
    (stored_bit c key off \<longrightarrow> stored_bit c' key off)"
proof -
  from assms obtain m k where
    l: "add_loop env (c\<lparr>calls := calls c @ [HGETALL (n @ '':metadata'')]\<rparr>) n (py_str env x) m (py_range k) = Inr c'"
    by (rule add_to_bloom_filter_InrE)
  from add_loop_frame [OF l] metadata_key_neq_bits_key [of n2 n]
  show ?thesis by auto
qed

lemma add_all_frame:
  "add_all env c ops = Inr c' \<Longrightarrow>
   decode_responses c' = decode_responses c \<and>
   keyspace c' (n2 @ '':metadata'') = keyspace c (n2 @ '':metadata'') \<and>
   (stored_bit c key off \<longrightarrow> stored_bit c' key off)"
proof (induction ops arbitrary: c)
  case Nil
  then show ?case by simp
next
  case (Cons a ops)
  obtain n x where a: "a = (n, x)" by (cases a)
  from Cons.prems a obtain r c1 where
    1: "add_to_bloom_filter env c n x = Inr (r, c1)" and 2: "add_all env c1 ops = Inr c'"
    by (auto split: sum.splits)
  from Cons.IH [OF 2] add_to_bloom_filter_frame [OF 1, of n2 key off]
  show ?case by auto
qed

subsection \<open>What the loops do on a well-formed filter\<close>

lemma stored_bit_calls_fun [simp]: "stored_bit (c\<lparr>calls := l\<rparr>) = stored_bit c"
  by (intro ext) (simp add: stored_bit_def)

lemma bit_offset_pos: "0 < m \<Longrightarrow> bit_offset env s i m = Inr (sint (mmh3_hash env s i) mod m)"
  by (simp add: bit_offset_def py_mod_def)


lemma setbit_total:
  "0 \<le> off \<Longrightarrow> \<not> holds_hash c key \<Longrightarrow>
   \<exists>c'. setbit c key off v = Inr c' \<and> \<not> holds_hash c' key \<and>
        calls c' = calls c @ [SETBIT key off v]"
  by (auto simp: setbit_def holds_hash_def split: option.splits redis_obj.splits)

lemma add_loop_total:
  assumes "0 < m"
  shows "\<not> holds_hash c (n @ '':bits'') \<Longrightarrow>
   \<exists>c'. add_loop env c n s m is = Inr c' \<and>
     calls c' = calls c @ map (\<lambda>i. SETBIT (n @ '':bits'') (sint (mmh3_hash env s i) mod m) 1) is"
proof (induction "is" arbitrary: c)
  case Nil
  then show ?case by simp
next
  case (Cons i rest)
  let ?v = "sint (mmh3_hash env s i) mod m"
  have v: "bit_offset env s i m = Inr ?v" using assms(1) by (rule bit_offset_pos)
  have v0: "0 \<le> ?v" using assms(1) by simp
  from setbit_total [OF v0 Cons.prems, of 1] obtain c1 where
    sb: "setbit c (n @ '':bits'') ?v 1 = Inr c1" and nh: "\<not> holds_hash c1 (n @ '':bits'')"
    and cl: "calls c1 = calls c @ [SETBIT (n @ '':bits'') ?v 1]"
    by blast
  from Cons.IH [OF nh] obtain c' where
    "add_loop env c1 n s m rest = Inr c'"
    "calls c' = calls c1 @ map (\<lambda>i. SETBIT (n @ '':bits'') (sint (mmh3_hash env s i) mod m) 1) rest"
    by blast
  with v sb cl show ?case by simp
qed

lemma add_to_bloom_filter_total:
  assumes "hgetall c (n @ '':metadata'') = Inr (md, c1)" and "md \<noteq> []"
    and "metadata_int md ''size'' = Inr m" and "metadata_int md ''hash_functions'' = Inr k"
    and "0 < m" and "\<not> holds_hash c (n @ '':bits'')"
  shows "\<exists>c'. add_to_bloom_filter env c n x = Inr (True, c') \<and>
    calls c' = calls c @ HGETALL (n @ '':metadata'') #
       map (\<lambda>v. SETBIT (n @ '':bits'') v 1) (probe_offsets env x m k)"
proof -
  from hgetall_Inr [OF assms(1)] have c1: "c1 = c\<lparr>calls := calls c @ [HGETALL (n @ '':metadata'')]\<rparr>" .
  have "\<not> holds_hash c1 (n @ '':bits'')" using assms(6) by (simp add: c1)
  from add_loop_total [OF assms(5) this, of env "py_str env x" "py_range k"]
  obtain c' where "add_loop env c1 n (py_str env x) m (py_range k) = Inr c'"
    "calls c' = calls c1 @ map (\<lambda>i. SETBIT (n @ '':bits'') (sint (mmh3_hash env (py_str env x) i) mod m) 1) (py_range k)"
    by blast
  with assms(1-4) show ?thesis
    by (simp add: add_to_bloom_filter_def c1 probe_offsets_def comp_def)
qed

section \<open>Decimal text: \<^verbatim>\<open>int(str(i)) == i\<close>\<close>
















section \<open>Sizing and initialisation\<close>




lemma ln2_sq_pos: "0 < (ln (2::real))\<^sup>2"
  by simp
















section \<open>Every bit command stays inside the buffer\<close>

lemma add_loop_valid:
  assumes "0 < m"
  shows "add_loop env c n s m is = Inr c' \<Longrightarrow> list_all (valid_bit_command m) (calls c) \<Longrightarrow>
    list_all (valid_bit_command m) (calls c')"
proof (induction "is" arbitrary: c)
  case Nil
  then show ?case by simp
next
  case (Cons i rest)
  let ?v = "sint (mmh3_hash env s i) mod m"
  have v: "bit_offset env s i m = Inr ?v" using assms by (rule bit_offset_pos)
  from Cons.prems(1) v obtain c1 where
    sb: "setbit c (n @ '':bits'') ?v 1 = Inr c1" and rest: "add_loop env c1 n s m rest = Inr c'"
    by (auto split: sum.splits)
  from sb have "calls c1 = calls c @ [SETBIT (n @ '':bits'') ?v 1]"
    by (auto simp: setbit_def split: if_splits option.splits redis_obj.splits)
  with Cons.prems(2) assms have "list_all (valid_bit_command m) (calls c1)" by simp
  from Cons.IH [OF rest this] show ?case .
qed

lemma check_loop_valid:
  assumes "0 < m"
  shows "check_loop env c n s m is = Inr (r, c') \<Longrightarrow> list_all (valid_bit_command m) (calls c) \<Longrightarrow>
    list_all (valid_bit_command m) (calls c')"
proof (induction "is" arbitrary: c)
  case Nil
  then show ?case by simp
next
  case (Cons i rest)
  let ?v = "sint (mmh3_hash env s i) mod m"
  have v: "bit_offset env s i m = Inr ?v" using assms by (rule bit_offset_pos)
  from Cons.prems(1) v obtain b c1 where
    gb: "getbit c (n @ '':bits'') ?v = Inr (b, c1)" and
    rest: "(b = 0 \<and> c' = c1) \<or> check_loop env c1 n s m rest = Inr (r, c')"
    by (auto split: sum.splits if_splits)
  from gb have "calls c1 = calls c @ [GETBIT (n @ '':bits'') ?v]"
    by (auto simp: getbit_def split: if_splits option.splits redis_obj.splits)
  with Cons.prems(2) assms have 1: "list_all (valid_bit_command m) (calls c1)" by simp
  from rest show ?case
  proof
    assume "b = 0 \<and> c' = c1"
    with 1 show ?thesis by simp
  next
    assume "check_loop env c1 n s m rest = Inr (r, c')"
    from Cons.IH [OF this 1] show ?thesis .
  qed
qed

section \<open>The claims\<close>

lemma sum_case_Inr: "(case x of Inl _ \<Rightarrow> False | Inr y \<Rightarrow> P y) \<Longrightarrow> \<exists>y. x = Inr y \<and> P y"
  by (cases x) auto

lemma map_of_wrap_decoded:
  "decode_responses c \<Longrightarrow> map_of (map (\<lambda>(f, v). (wrap c f, wrap c v)) h) (PyBytes f) = None"
  by (induction h) (auto simp: wrap_def)

text \<open>
  Claim C1 (no false negatives). If \<^verbatim>\<open>add_to_bloom_filter(name, x)\<close> returned, then
  \<^verbatim>\<open>check_bloom_filter(name, x)\<close> returns \<^verbatim>\<open>True\<close>, whatever the store held before
  the insertion and whatever insertions (of any items, into any filters) completed after it.
\<close>

theorem no_false_negatives:
  assumes "add_to_bloom_filter env c filter_name x = Inr (r, c1)"
    and "add_all env c1 others = Inr c2"
  shows "\<exists>c3. check_bloom_filter env c2 filter_name x = Inr (True, c3)"
proof -
  let ?mk = "filter_name @ '':metadata''"
  let ?c0 = "c\<lparr>calls := calls c @ [HGETALL ?mk]\<rparr>"
  from assms(1) obtain md m k where
    h: "hgetall c ?mk = Inr (md, ?c0)" and md: "md \<noteq> []" and
    m: "metadata_int md ''size'' = Inr m" and k: "metadata_int md ''hash_functions'' = Inr k" and
    l: "add_loop env ?c0 filter_name (py_str env x) m (py_range k) = Inr c1"
    by (rule add_to_bloom_filter_InrE)
  from add_to_bloom_filter_frame [OF assms(1)] add_all_frame [OF assms(2)]
  have dec: "decode_responses c2 = decode_responses c"
    and ks: "keyspace c2 ?mk = keyspace c ?mk"
    by auto
  let ?c2 = "c2\<lparr>calls := calls c2 @ [HGETALL ?mk]\<rparr>"
  from hgetall_cong [OF h ks dec] have h2: "hgetall c2 ?mk = Inr (md, ?c2)" .
  have "\<forall>i\<in>set (py_range k). \<exists>v. bit_offset env (py_str env x) i m = Inr v \<and>
      stored_bit ?c2 (filter_name @ '':bits'') v"
  proof
    fix i assume "i \<in> set (py_range k)"
    from add_loop_sets [OF l this] obtain v where
      "bit_offset env (py_str env x) i m = Inr v" "stored_bit c1 (filter_name @ '':bits'') v"
      by blast
    with add_all_frame [OF assms(2)]
    show "\<exists>v. bit_offset env (py_str env x) i m = Inr v \<and> stored_bit ?c2 (filter_name @ '':bits'') v"
      by auto
  qed
  from check_loop_all_stored [OF this] obtain c3 where
    "check_loop env ?c2 filter_name (py_str env x) m (py_range k) = Inr (True, c3)" by blast
  with h2 md m k show ?thesis
    by (auto simp: check_bloom_filter_def)
qed

theorem no_false_negatives_witness:
  "\<exists>r c1 c2 c3.
     add_to_bloom_filter example_env example_client ''f'' ''a'' = Inr (r, c1)
   \<and> add_all example_env c1 [(''f'', ''bb'')] = Inr c2
   \<and> check_bloom_filter example_env c2 ''f'' ''a'' = Inr (True, c3)"
proof -
  have "case add_to_bloom_filter example_env example_client ''f'' ''a'' of
          Inl _ \<Rightarrow> False
        | Inr (r, c1) \<Rightarrow>
            (case add_all example_env c1 [(''f'', ''bb'')] of Inl _ \<Rightarrow> False | Inr _ \<Rightarrow> True)"
    by code_simp
  from sum_case_Inr [OF this] obtain r c1 where
    1: "add_to_bloom_filter example_env example_client ''f'' ''a'' = Inr (r, c1)" and
    "case add_all example_env c1 [(''f'', ''bb'')] of Inl _ \<Rightarrow> False | Inr _ \<Rightarrow> True"
    by (auto simp del: add_all.simps)
  from sum_case_Inr [OF this(2)] obtain c2 where
    2: "add_all example_env c1 [(''f'', ''bb'')] = Inr c2"
    by blast
  from no_false_negatives [OF 1 2] 1 2 show ?thesis by blast
qed






text \<open>
  Claim C4 (not-found propagation). When the key \<^verbatim>\<open><name>:metadata\<close> is absent from the
  store, \<^verbatim>\<open>add_to_bloom_filter\<close> and \<^verbatim>\<open>check_bloom_filter\<close> both raise the
  \<^verbatim>\<open>ValueError\<close> that says the filter was not found, for every item; neither returns a
  value.
\<close>

theorem not_found_propagation:
  assumes "keyspace c (filter_name @ '':metadata'') = None"
  shows "add_to_bloom_filter env c filter_name x = Inl (ValueError (NotFound filter_name))
       \<and> check_bloom_filter env c filter_name x = Inl (ValueError (NotFound filter_name))"
  using assms by (simp add: add_to_bloom_filter_def check_bloom_filter_def hgetall_def)

theorem not_found_propagation_witness:
  "keyspace example_client (''g'' @ '':metadata'') = None
   \<and> add_to_bloom_filter example_env example_client ''g'' ''a'' = Inl (ValueError (NotFound ''g''))
   \<and> check_bloom_filter example_env example_client ''g'' ''a'' = Inl (ValueError (NotFound ''g''))"
proof -
  have "keyspace example_client (''g'' @ '':metadata'') = None"
    by (simp add: example_client_def)
  with not_found_propagation [OF this, of example_env "''a''"] show ?thesis by simp
qed

text \<open>
  Claim C5 (idempotence of insert). After \<^verbatim>\<open>add_to_bloom_filter(name, x)\<close> has returned,
  a second \<^verbatim>\<open>add_to_bloom_filter(name, x)\<close> returns as well and leaves every key of the
  store, the bit buffer among them, as the first call left it.
\<close>

theorem insert_idempotent:
  assumes "add_to_bloom_filter env c filter_name x = Inr (r, c1)"
  shows "\<exists>c2. add_to_bloom_filter env c1 filter_name x = Inr (True, c2) \<and> keyspace c2 = keyspace c1"
proof -
  let ?mk = "filter_name @ '':metadata''"
  let ?c0 = "c\<lparr>calls := calls c @ [HGETALL ?mk]\<rparr>"
  from assms(1) obtain md m k where
    h: "hgetall c ?mk = Inr (md, ?c0)" and md: "md \<noteq> []" and
    m: "metadata_int md ''size'' = Inr m" and k: "metadata_int md ''hash_functions'' = Inr k" and
    l: "add_loop env ?c0 filter_name (py_str env x) m (py_range k) = Inr c1"
    by (rule add_to_bloom_filter_InrE)
  from add_to_bloom_filter_frame [OF assms(1)]
  have dec: "decode_responses c1 = decode_responses c"
    and ks: "keyspace c1 ?mk = keyspace c ?mk"
    by auto
  let ?c1 = "c1\<lparr>calls := calls c1 @ [HGETALL ?mk]\<rparr>"
  from hgetall_cong [OF h ks dec] have h1: "hgetall c1 ?mk = Inr (md, ?c1)" .
  have "\<forall>i\<in>set (py_range k). \<exists>v. bit_offset env (py_str env x) i m = Inr v \<and>
      stored_bit ?c1 (filter_name @ '':bits'') v"
    using add_loop_sets [OF l] by simp
  from add_loop_idem [OF this] obtain c2 where
    "add_loop env ?c1 filter_name (py_str env x) m (py_range k) = Inr c2"
    "keyspace c2 = keyspace ?c1" by blast
  with h1 md m k show ?thesis
    by (auto simp: add_to_bloom_filter_def)
qed

theorem insert_idempotent_witness:
  "\<exists>r c1 c2. add_to_bloom_filter example_env example_client ''f'' ''a'' = Inr (r, c1)
     \<and> keyspace c1 ''f:bits'' = Some (RString [0, 0, 0, 0, 0, 0, 0, 0, 0, 0, 0, 146, 0])
     \<and> add_to_bloom_filter example_env c1 ''f'' ''a'' = Inr (True, c2)
     \<and> keyspace c2 = keyspace c1"
proof -
  have "case add_to_bloom_filter example_env example_client ''f'' ''a'' of
          Inl _ \<Rightarrow> False
        | Inr (r, c1) \<Rightarrow>
            keyspace c1 ''f:bits'' = Some (RString [0, 0, 0, 0, 0, 0, 0, 0, 0, 0, 0, 146, 0])"
    by code_simp
  from sum_case_Inr [OF this] obtain r c1 where
    1: "add_to_bloom_filter example_env example_client ''f'' ''a'' = Inr (r, c1)" and
    2: "keyspace c1 ''f:bits'' = Some (RString [0, 0, 0, 0, 0, 0, 0, 0, 0, 0, 0, 146, 0])"
    by auto
  from insert_idempotent [OF 1] 1 2 show ?thesis by blast
qed





text \<open>
  Claim C8 (offsets in range). For a positive \<open>m\<close>, \<^verbatim>\<open>mmh3.hash(item_str, i) % m\<close> is
  computed without an exception and lies in \<open>[0, m)\<close>, also when the hash is negative;
  so every \<^verbatim>\<open>SETBIT\<close> the insertion loop sends and every \<^verbatim>\<open>GETBIT\<close> the query loop
  sends has its offset inside the \<open>m\<close>-bit buffer.
\<close>

theorem bit_offset_in_range:
  assumes "0 < m"
  shows "(\<exists>v. bit_offset env item_str i m = Inr v \<and> 0 \<le> v \<and> v < m)
    \<and> (add_loop env c filter_name item_str m seeds = Inr c1
          \<and> list_all (valid_bit_command m) (calls c)
        \<longrightarrow> list_all (valid_bit_command m) (calls c1))
    \<and> (check_loop env c filter_name item_str m seeds = Inr (r, c2)
          \<and> list_all (valid_bit_command m) (calls c)
        \<longrightarrow> list_all (valid_bit_command m) (calls c2))"
  using assms add_loop_valid [OF assms, of env c filter_name item_str seeds c1]
    check_loop_valid [OF assms, of env c filter_name item_str seeds r c2]
  by (simp add: bit_offset_pos)

theorem bit_offset_in_range_witness:
  "(0::int) < 100
   \<and> sint (mmh3_hash example_env ''a'' 0) = - 6
   \<and> bit_offset example_env ''a'' 0 100 = Inr 94
   \<and> (\<exists>c1. add_loop example_env example_client ''f'' ''a'' 100 [0, 1, 2] = Inr c1
         \<and> list_all (valid_bit_command 100) (calls c1))
   \<and> (\<exists>r c2. check_loop example_env example_client ''f'' ''a'' 100 [0, 1, 2] = Inr (r, c2)
         \<and> list_all (valid_bit_command 100) (calls c2))"
proof -
  have h: "sint (mmh3_hash example_env ''a'' 0) = - 6" "bit_offset example_env ''a'' 0 100 = Inr 94"
    by code_simp+
  have v: "list_all (valid_bit_command 100) (calls example_client)"
    by (simp add: example_client_def)
  have "case add_loop example_env example_client ''f'' ''a'' 100 [0, 1, 2] of
          Inl _ \<Rightarrow> False | Inr _ \<Rightarrow> True"
    by code_simp
  from sum_case_Inr [OF this] obtain c1 where
    a: "add_loop example_env example_client ''f'' ''a'' 100 [0, 1, 2] = Inr c1" by blast
  have "case check_loop example_env example_client ''f'' ''a'' 100 [0, 1, 2] of
          Inl _ \<Rightarrow> False | Inr _ \<Rightarrow> True"
    by code_simp
  from sum_case_Inr [OF this] obtain r c2 where
    c: "check_loop example_env example_client ''f'' ''a'' 100 [0, 1, 2] = Inr (r, c2)" by auto
  from bit_offset_in_range [of 100 example_env "''a''" 0 example_client "''f''" "[0, 1, 2]" c1 r c2]
    h v a c
  show ?thesis by simp
qed



text \<open>
  Claim C10 (string field keys). With a client built with \<^verbatim>\<open>decode_responses=True\<close> the
  field keys of the metadata are \<^verbatim>\<open>str\<close>, and on a filter whose metadata exists both
  \<^verbatim>\<open>add_to_bloom_filter\<close> and \<^verbatim>\<open>check_bloom_filter\<close> raise \<^verbatim>\<open>KeyError(b'size')\<close>
  at \<^verbatim>\<open>metadata[b'size']\<close>: the \<^verbatim>\<open>str\<close> branch of the conditional is never reached.
\<close>

theorem decoded_keys_raise_KeyError:
  assumes "decode_responses c"
    and "keyspace c (filter_name @ '':metadata'') = Some (RHash h)" and "h \<noteq> []"
  shows "add_to_bloom_filter env c filter_name x = Inl (KeyError (PyBytes ''size''))
       \<and> check_bloom_filter env c filter_name x = Inl (KeyError (PyBytes ''size''))"
  using assms
  by (simp add: add_to_bloom_filter_def check_bloom_filter_def hgetall_def metadata_int_def
      map_of_wrap_decoded)

theorem decoded_keys_raise_KeyError_witness:
  "decode_responses (example_client\<lparr>decode_responses := True\<rparr>)
   \<and> add_to_bloom_filter example_env (example_client\<lparr>decode_responses := True\<rparr>) ''f'' ''a''
       = Inl (KeyError (PyBytes ''size''))
   \<and> check_bloom_filter example_env (example_client\<lparr>decode_responses := True\<rparr>) ''f'' ''a''
       = Inl (KeyError (PyBytes ''size''))"
proof -
  have k: "keyspace (example_client\<lparr>decode_responses := True\<rparr>) (''f'' @ '':metadata'') =
      Some (RHash [(''size'', ''100''), (''hash_functions'', ''3'')])"
    by (simp add: example_client_def)
  from decoded_keys_raise_KeyError [OF _ k, of example_env "''a''"]
  show ?thesis by simp
qed

end
